theory Spec2Isabelle
  imports Main
begin

section \<open>Values, errors and the transaction\<close>

text \<open>
  A Go \<^verbatim>\<open>string\<close> is a sequence of bytes, and so is the content of a \<^verbatim>\<open>[]byte\<close>;
  both are \<^typ>\<open>string\<close> here (a \<^typ>\<open>char\<close> is one byte). A \<^verbatim>\<open>[]byte\<close> can also
  be \<^verbatim>\<open>nil\<close>, which \<^verbatim>\<open>Get\<close> and \<^verbatim>\<open>GetJson\<close> test for: a slice is a
  \<^typ>\<open>string option\<close> with \<^term>\<open>None\<close> for \<^verbatim>\<open>nil\<close>.
\<close>

type_synonym slice = "string option"

definition len :: "slice \<Rightarrow> nat" where
  "len v = (case v of None \<Rightarrow> 0 | Some bs \<Rightarrow> length bs)"

text \<open>
  The three error values of \<^verbatim>\<open>rod.go\<close>, the errors the store's primitives return to it,
  an error of the JSON encoder or decoder, and the run-time panic of an index out of range
  (\<^verbatim>\<open>buckets[0]\<close>).
\<close>

datatype error =
    ErrLocationMustHaveAtLeastOneBucket
  | ErrInvalidLocationBucket
  | ErrKeyNotProvided
  | ErrTxNotWritable
  | ErrBucketNameRequired
  | ErrIncompatibleValue
  | ErrKeyRequired
  | ErrKeyTooLarge
  | ErrValueTooLarge
  | ErrJson string
  | PanicIndexOutOfRange

fun storage_failure :: "error \<Rightarrow> bool" where
  "storage_failure ErrTxNotWritable = True"
| "storage_failure ErrBucketNameRequired = True"
| "storage_failure ErrIncompatibleValue = True"
| "storage_failure ErrKeyRequired = True"
| "storage_failure ErrKeyTooLarge = True"
| "storage_failure ErrValueTooLarge = True"
| "storage_failure _ = False"

text \<open>
  The store is the external collaborator (package \<^verbatim>\<open>bolt\<close>); \<^verbatim>\<open>rod.go\<close> sees an open
  transaction \<^verbatim>\<open>*bolt.Tx\<close> and bucket handles \<^verbatim>\<open>*bolt.Bucket\<close> into it. A handle is
  the path of bucket names from the root, and the transaction maps each path to what is
  stored there: a nested bucket, or a key's value. The handle of the root bucket is the
  empty path.
\<close>

type_synonym path = "string list"

datatype entry = SubBucket | KeyValue slice

record tx =
  writable :: bool
  entries :: "path \<rightharpoonup> entry"

text \<open>The store's limits on the length of a key and of a value, in bytes.\<close>

definition MaxKeySize :: nat where
  "MaxKeySize = 32768"

definition MaxValueSize :: nat where
  "MaxValueSize = 2147483646"

subsection \<open>The primitives of the store\<close>

text \<open>
  The four primitives below belong to package \<^verbatim>\<open>bolt\<close>, whose source is not part of
  this repository; each returns the transaction next to its result, so that what a call
  does to the store is part of the model. \<^verbatim>\<open>tx.Bucket\<close> and
  \<^verbatim>\<open>tx.CreateBucketIfNotExists\<close> are the same operations on the root bucket.
\<close>

text \<open>
  Modelled from the spec: \<open>openContainer(parent, name)\<close>, the store's
  \<^verbatim>\<open>b.Bucket(name)\<close>: the nested bucket, or \<^verbatim>\<open>nil\<close> when the name is absent or holds a
  plain value. The transaction is returned as it was.
\<close>

definition Bucket_Bucket :: "tx \<Rightarrow> path \<Rightarrow> string \<Rightarrow> path option \<times> tx" where
  "Bucket_Bucket t b name =
     (case entries t (b @ [name]) of
        Some SubBucket \<Rightarrow> (Some (b @ [name]), t)
      | _ \<Rightarrow> (None, t))"

definition Tx_Bucket :: "tx \<Rightarrow> string \<Rightarrow> path option \<times> tx" where
  "Tx_Bucket t name = Bucket_Bucket t [] name"

text \<open>
  Modelled from the spec: \<open>createOrOpenContainer(parent, name)\<close>, the store's
  \<^verbatim>\<open>b.CreateBucketIfNotExists(name)\<close>: opens the nested bucket when it exists, creates it
  when the name is free, and fails on a read-only transaction, on an empty name and on a
  name that holds a plain value.
\<close>

definition Bucket_CreateBucketIfNotExists :: "tx \<Rightarrow> path \<Rightarrow> string \<Rightarrow> (error + path) \<times> tx" where
  "Bucket_CreateBucketIfNotExists t b name =
     (if \<not> writable t then (Inl ErrTxNotWritable, t)
      else if name = [] then (Inl ErrBucketNameRequired, t)
      else case entries t (b @ [name]) of
             Some SubBucket \<Rightarrow> (Inr (b @ [name]), t)
           | Some (KeyValue _) \<Rightarrow> (Inl ErrIncompatibleValue, t)
           | None \<Rightarrow> (Inr (b @ [name]), t\<lparr>entries := (entries t)(b @ [name] \<mapsto> SubBucket)\<rparr>))"

definition Tx_CreateBucketIfNotExists :: "tx \<Rightarrow> string \<Rightarrow> (error + path) \<times> tx" where
  "Tx_CreateBucketIfNotExists t name = Bucket_CreateBucketIfNotExists t [] name"

text \<open>
  Modelled from the spec: \<open>put(container, key, value)\<close>, the store's
  \<^verbatim>\<open>b.Put(key, value)\<close>: stores the slice under the key, overwriting a plain value; fails
  on a read-only transaction, on an empty or oversized key, on an oversized value and on a
  key that names a nested bucket.
\<close>

definition Bucket_Put :: "tx \<Rightarrow> path \<Rightarrow> string \<Rightarrow> slice \<Rightarrow> error option \<times> tx" where
  "Bucket_Put t b key val =
     (if \<not> writable t then (Some ErrTxNotWritable, t)
      else if length key = 0 then (Some ErrKeyRequired, t)
      else if length key > MaxKeySize then (Some ErrKeyTooLarge, t)
      else if len val > MaxValueSize then (Some ErrValueTooLarge, t)
      else case entries t (b @ [key]) of
             Some SubBucket \<Rightarrow> (Some ErrIncompatibleValue, t)
           | _ \<Rightarrow> (None, t\<lparr>entries := (entries t)(b @ [key] \<mapsto> KeyValue val)\<rparr>))"

text \<open>
  Modelled from the spec: \<open>get(container, key)\<close>, the store's
  \<^verbatim>\<open>b.Get(key)\<close>: the slice stored under the key, \<^verbatim>\<open>nil\<close> when the key is absent or
  names a nested bucket.
\<close>

definition Bucket_Get :: "tx \<Rightarrow> path \<Rightarrow> string \<Rightarrow> slice \<times> tx" where
  "Bucket_Get t b key =
     (case entries t (b @ [key]) of
        Some (KeyValue v) \<Rightarrow> (v, t)
      | _ \<Rightarrow> (None, t))"

section \<open>The operations of rod.go\<close>

text \<open>
  \<^verbatim>\<open>strings.Split(s, sep)\<close> for a separator of one byte: the substrings between the
  separators, one more than there are separators; \<^verbatim>\<open>Split("", ".")\<close> is \<^verbatim>\<open>[""]\<close>.
\<close>

fun Split :: "string \<Rightarrow> char \<Rightarrow> string list" where
  "Split [] sep = [[]]"
| "Split (c # cs) sep =
     (if c = sep then [] # Split cs sep
      else case Split cs sep of
             [] \<Rightarrow> [[c]]
           | w # ws \<Rightarrow> (c # w) # ws)"

text \<open>The loop of \<^verbatim>\<open>Put\<close> over \<^verbatim>\<open>buckets[1:]\<close>, from the bucket \<open>b\<close>.\<close>

fun Put_loop :: "tx \<Rightarrow> path \<Rightarrow> string list \<Rightarrow> (error + path) \<times> tx" where
  "Put_loop t b [] = (Inr b, t)"
| "Put_loop t b (name # names) =
     (if name = [] then (Inl ErrInvalidLocationBucket, t)
      else case Bucket_CreateBucketIfNotExists t b name of
             (Inl err, t') \<Rightarrow> (Inl err, t')
           | (Inr b', t') \<Rightarrow> Put_loop t' b' names)"

definition Put :: "tx \<Rightarrow> string \<Rightarrow> string \<Rightarrow> slice \<Rightarrow> error option \<times> tx" where
  "Put t location key val =
     (if location = [] then (Some ErrLocationMustHaveAtLeastOneBucket, t)
      else if key = [] then (Some ErrKeyNotProvided, t)
      else case Split location (CHR ''.'') of
             [] \<Rightarrow> (Some PanicIndexOutOfRange, t)
           | b0 # rest \<Rightarrow>
               if b0 = [] then (Some ErrInvalidLocationBucket, t)
               else case Tx_CreateBucketIfNotExists t b0 of
                      (Inl errCreateTopLevel, t1) \<Rightarrow> (Some errCreateTopLevel, t1)
                    | (Inr b, t1) \<Rightarrow>
                        (case (if length (b0 # rest) > 1 then Put_loop t1 b rest
                               else (Inr b, t1)) of
                           (Inl err, t2) \<Rightarrow> (Some err, t2)
                         | (Inr b', t2) \<Rightarrow> Bucket_Put t2 b' key val))"

text \<open>
  \<^verbatim>\<open>PutJson\<close>; the encoder \<^verbatim>\<open>json.Marshal\<close> is a parameter, returning the error or the
  encoded slice.
\<close>

definition PutJson :: "('v \<Rightarrow> error + slice) \<Rightarrow> tx \<Rightarrow> string \<Rightarrow> string \<Rightarrow> 'v \<Rightarrow> error option \<times> tx" where
  "PutJson marshal t location key v =
     (case marshal v of
        Inl err \<Rightarrow> (Some err, t)
      | Inr val \<Rightarrow> Put t location key val)"

text \<open>The loop of \<^verbatim>\<open>GetBucket\<close> over \<^verbatim>\<open>buckets[1:]\<close>; \<^term>\<open>Inr None\<close> is \<^verbatim>\<open>(nil, nil)\<close>.\<close>

fun GetBucket_loop :: "tx \<Rightarrow> path \<Rightarrow> string list \<Rightarrow> (error + path option) \<times> tx" where
  "GetBucket_loop t b [] = (Inr (Some b), t)"
| "GetBucket_loop t b (name # names) =
     (if name = [] then (Inl ErrInvalidLocationBucket, t)
      else case Bucket_Bucket t b name of
             (None, t') \<Rightarrow> (Inr None, t')
           | (Some b', t') \<Rightarrow> GetBucket_loop t' b' names)"

definition GetBucket :: "tx \<Rightarrow> string \<Rightarrow> (error + path option) \<times> tx" where
  "GetBucket t location =
     (if location = [] then (Inl ErrLocationMustHaveAtLeastOneBucket, t)
      else case Split location (CHR ''.'') of
             [] \<Rightarrow> (Inl PanicIndexOutOfRange, t)
           | b0 # rest \<Rightarrow>
               if b0 = [] then (Inl ErrInvalidLocationBucket, t)
               else case Tx_Bucket t b0 of
                      (None, t1) \<Rightarrow> (Inr None, t1)
                    | (Some b, t1) \<Rightarrow>
                        if length (b0 # rest) > 1 then GetBucket_loop t1 b rest
                        else (Inr (Some b), t1))"

definition Get :: "tx \<Rightarrow> string \<Rightarrow> string \<Rightarrow> (error + slice) \<times> tx" where
  "Get t location key =
     (case GetBucket t location of
        (Inl err, t1) \<Rightarrow> (Inl err, t1)
      | (Inr None, t1) \<Rightarrow> (Inr None, t1)
      | (Inr (Some b), t1) \<Rightarrow>
          if key = [] then (Inl ErrKeyNotProvided, t1)
          else case Bucket_Get t1 b key of (v, t2) \<Rightarrow> (Inr v, t2))"

text \<open>
  \<^verbatim>\<open>GetJson\<close>; the decoder \<^verbatim>\<open>json.Unmarshal\<close> is a parameter, from the raw bytes and the
  output target to its error and the target afterwards.
\<close>

definition GetJson :: "(string \<Rightarrow> 'o \<Rightarrow> error option \<times> 'o) \<Rightarrow> tx \<Rightarrow> string \<Rightarrow> string \<Rightarrow> 'o
    \<Rightarrow> (error option \<times> 'o) \<times> tx" where
  "GetJson unmarshal t location key out =
     (case Get t location key of
        (Inl err, t1) \<Rightarrow> ((Some err, out), t1)
      | (Inr None, t1) \<Rightarrow> ((None, out), t1)
      | (Inr (Some raw), t1) \<Rightarrow> (unmarshal raw out, t1))"

section \<open>Notions the properties are stated with\<close>

text \<open>The buckets named by the segments \<open>names\<close> exist, one inside the other, below \<open>b\<close>.\<close>

fun chain_from :: "tx \<Rightarrow> path \<Rightarrow> string list \<Rightarrow> bool" where
  "chain_from t b [] = True"
| "chain_from t b (name # names) =
     (entries t (b @ [name]) = Some SubBucket \<and> chain_from t (b @ [name]) names)"

definition segments :: "string \<Rightarrow> string list" where
  "segments location = Split location (CHR ''.'')"

definition chain_exists :: "tx \<Rightarrow> string \<Rightarrow> bool" where
  "chain_exists t location = chain_from t [] (segments location)"

text \<open>The segments before the first empty one.\<close>

definition before_empty :: "string list \<Rightarrow> string list" where
  "before_empty names = takeWhile (\<lambda>name. name \<noteq> []) names"

text \<open>
  No segment of \<open>names\<close> names a plain value on the way down from \<open>b\<close>: the one case
  in which a writable transaction refuses to create or open the bucket.
\<close>

fun no_value_on :: "tx \<Rightarrow> path \<Rightarrow> string list \<Rightarrow> bool" where
  "no_value_on t b [] = True"
| "no_value_on t b (name # names) =
     ((case entries t (b @ [name]) of Some (KeyValue _) \<Rightarrow> False | _ \<Rightarrow> True)
      \<and> no_value_on t (b @ [name]) names)"

text \<open>
  A small encoder and decoder to run \<^verbatim>\<open>PutJson\<close> and \<^verbatim>\<open>GetJson\<close> on: booleans are
  encoded as \<^verbatim>\<open>true\<close> and \<^verbatim>\<open>false\<close>, a channel cannot be encoded.
\<close>

datatype sample_value = JBool bool | JChan

fun sample_marshal :: "sample_value \<Rightarrow> error + slice" where
  "sample_marshal (JBool True) = Inr (Some ''true'')"
| "sample_marshal (JBool False) = Inr (Some ''false'')"
| "sample_marshal JChan = Inl (ErrJson ''json: unsupported type: chan int'')"

definition sample_unmarshal :: "string \<Rightarrow> bool \<Rightarrow> error option \<times> bool" where
  "sample_unmarshal raw out =
     (if raw = ''true'' then (None, True)
      else if raw = ''false'' then (None, False)
      else (Some (ErrJson ''invalid character''), out))"

text \<open>A writable transaction on an empty store, and one with the bucket \<^verbatim>\<open>a\<close>.\<close>

definition empty_tx :: tx where
  "empty_tx = \<lparr>writable = True, entries = Map.empty\<rparr>"

definition a_tx :: tx where
  "a_tx = \<lparr>writable = True, entries = [[''a''] \<mapsto> SubBucket]\<rparr>"

text \<open>A read-only transaction on a store that holds one encoded value.\<close>

definition dog_tx :: tx where
  "dog_tx = \<lparr>writable = False,
             entries = [[''animal''] \<mapsto> SubBucket, [''animal'', ''dog''] \<mapsto> KeyValue (Some ''true'')]\<rparr>"

section \<open>Facts about the store primitives and the two loops\<close>

lemma Split_not_Nil: "Split s sep \<noteq> []"
  by (induction s) (auto split: list.splits)

lemma GetBucket_loop_tx: "snd (GetBucket_loop t b names) = t"
  by (induction names arbitrary: b) (auto simp: Bucket_Bucket_def split: option.splits entry.splits)

lemma GetBucket_loop_found:
  "[] \<notin> set names \<Longrightarrow> chain_from t b names \<Longrightarrow> GetBucket_loop t b names = (Inr (Some (b @ names)), t)"
  by (induction names arbitrary: b) (auto simp: Bucket_Bucket_def)

lemma GetBucket_loop_missing:
  "\<not> chain_from t b (before_empty names) \<Longrightarrow> GetBucket_loop t b names = (Inr None, t)"
  by (induction names arbitrary: b)
     (auto simp: Bucket_Bucket_def before_empty_def split: option.splits entry.splits)

lemma GetBucket_loop_invalid:
  "[] \<in> set names \<Longrightarrow> chain_from t b (before_empty names) \<Longrightarrow>
   GetBucket_loop t b names = (Inl ErrInvalidLocationBucket, t)"
  by (induction names arbitrary: b)
     (auto simp: Bucket_Bucket_def before_empty_def split: option.splits entry.splits if_splits)

lemma GetBucket_eq_loop:
  "location \<noteq> [] \<Longrightarrow> GetBucket t location = GetBucket_loop t [] (segments location)"
  by (cases "Split location (CHR ''.'')"; cases "tl (Split location (CHR ''.''))")
     (auto simp: GetBucket_def segments_def Split_not_Nil Tx_Bucket_def Bucket_Bucket_def
           split: option.splits entry.splits)

lemma Put_eq_loop:
  "location \<noteq> [] \<Longrightarrow> key \<noteq> [] \<Longrightarrow>
   Put t location key val =
     (case Put_loop t [] (segments location) of
        (Inl err, t2) \<Rightarrow> (Some err, t2)
      | (Inr b', t2) \<Rightarrow> Bucket_Put t2 b' key val)"
  by (cases "Split location (CHR ''.'')"; cases "tl (Split location (CHR ''.''))")
     (auto simp: Put_def segments_def Split_not_Nil Tx_CreateBucketIfNotExists_def
           split: prod.splits sum.splits)

lemma Create_keeps:
  "entries t p = Some x \<Longrightarrow> entries (snd (Bucket_CreateBucketIfNotExists t b name)) p = Some x"
  by (auto simp: Bucket_CreateBucketIfNotExists_def split: option.splits entry.splits)

lemma Put_loop_keeps:
  "entries t p = Some x \<Longrightarrow> entries (snd (Put_loop t b names)) p = Some x"
proof (induction names arbitrary: t b)
  case Nil
  then show ?case by simp
next
  case (Cons name names)
  show ?case
  proof (cases "Bucket_CreateBucketIfNotExists t b name")
    case (Pair r t')
    with Create_keeps[OF Cons.prems, of b name] have "entries t' p = Some x" by simp
    with Cons.IH Pair Cons.prems show ?thesis by (cases r) auto
  qed
qed

lemma chain_from_mono:
  "chain_from t b names \<Longrightarrow> (\<And>p. entries t p = Some SubBucket \<Longrightarrow> entries t' p = Some SubBucket)
   \<Longrightarrow> chain_from t' b names"
  by (induction names arbitrary: b) auto

lemma Create_Inr:
  "Bucket_CreateBucketIfNotExists t b name = (Inr b', t') \<Longrightarrow>
   b' = b @ [name] \<and> entries t' (b @ [name]) = Some SubBucket"
  by (auto simp: Bucket_CreateBucketIfNotExists_def split: option.splits entry.splits if_splits)

lemma Create_Inl:
  "Bucket_CreateBucketIfNotExists t b name = (Inl e, t') \<Longrightarrow> storage_failure e \<and> t' = t"
  by (auto simp: Bucket_CreateBucketIfNotExists_def split: option.splits entry.splits if_splits)

lemma Put_loop_Inr:
  "Put_loop t b names = (Inr b', t') \<Longrightarrow> b' = b @ names \<and> [] \<notin> set names \<and> chain_from t' b names"
proof (induction names arbitrary: t b)
  case Nil
  then show ?case by simp
next
  case (Cons name names)
  from Cons.prems have ne: "name \<noteq> []" by (auto split: if_splits)
  obtain r t1 where c: "Bucket_CreateBucketIfNotExists t b name = (r, t1)" by fastforce
  with Cons.prems ne obtain b1 where r: "r = Inr b1" and l: "Put_loop t1 b1 names = (Inr b', t')"
    by (cases r) auto
  from c r Create_Inr have b1: "b1 = b @ [name]" and e1: "entries t1 (b @ [name]) = Some SubBucket"
    by blast+
  from Cons.IH[OF l] have ih: "b' = b1 @ names" "[] \<notin> set names" "chain_from t' b1 names" by auto
  from Put_loop_keeps[OF e1, of b1 names] l have "entries t' (b @ [name]) = Some SubBucket" by simp
  with ih b1 ne show ?case by auto
qed

lemma Put_loop_Inl:
  "Put_loop t b names = (Inl e, t') \<Longrightarrow>
   (e = ErrInvalidLocationBucket \<and> [] \<in> set names \<and> chain_from t' b (before_empty names))
   \<or> storage_failure e"
proof (induction names arbitrary: t b)
  case Nil
  then show ?case by simp
next
  case (Cons name names)
  show ?case
  proof (cases "name = []")
    case True
    with Cons.prems show ?thesis by (simp add: before_empty_def)
  next
    case ne: False
    obtain r t1 where c: "Bucket_CreateBucketIfNotExists t b name = (r, t1)" by fastforce
    show ?thesis
    proof (cases r)
      case (Inl e1)
      with c Cons.prems ne Create_Inl[of t b name e1 t1] show ?thesis by auto
    next
      case (Inr b1)
      with c Cons.prems ne have l: "Put_loop t1 b1 names = (Inl e, t')" by auto
      from c Inr Create_Inr have b1: "b1 = b @ [name]" and e1: "entries t1 (b @ [name]) = Some SubBucket"
        by blast+
      from Put_loop_keeps[OF e1, of b1 names] l have "entries t' (b @ [name]) = Some SubBucket" by simp
      with Cons.IH[OF l] b1 ne show ?thesis by (auto simp: before_empty_def)
    qed
  qed
qed

lemma Bucket_Put_Some:
  "Bucket_Put t b key val = (Some e, t') \<Longrightarrow> storage_failure e \<and> t' = t"
  by (auto simp: Bucket_Put_def split: option.splits entry.splits if_splits)

lemma Bucket_Put_None:
  "Bucket_Put t b key val = (None, t') \<Longrightarrow>
   t' = t\<lparr>entries := (entries t)(b @ [key] \<mapsto> KeyValue val)\<rparr> \<and> entries t (b @ [key]) \<noteq> Some SubBucket"
  by (auto simp: Bucket_Put_def split: option.splits entry.splits if_splits)

lemma Create_writable:
  "writable (snd (Bucket_CreateBucketIfNotExists t b name)) = writable t"
  by (auto simp: Bucket_CreateBucketIfNotExists_def split: option.splits entry.splits)

lemma Create_deeper:
  "length p > Suc (length b) \<Longrightarrow>
   entries (snd (Bucket_CreateBucketIfNotExists t b name)) p = entries t p"
  by (auto simp: Bucket_CreateBucketIfNotExists_def split: option.splits entry.splits)

lemma no_value_on_cong:
  "(\<And>p. length p > length b \<Longrightarrow> entries t' p = entries t p) \<Longrightarrow>
   no_value_on t' b names = no_value_on t b names"
proof (induction names arbitrary: b)
  case Nil
  show ?case by simp
next
  case (Cons name names)
  have here: "entries t' (b @ [name]) = entries t (b @ [name])"
    by (rule Cons.prems) simp
  have "no_value_on t' (b @ [name]) names = no_value_on t (b @ [name]) names"
    by (rule Cons.IH) (simp add: Cons.prems)
  with here show ?case by simp
qed

lemma Create_succeeds:
  "writable t \<Longrightarrow> name \<noteq> [] \<Longrightarrow> (case entries t (b @ [name]) of Some (KeyValue _) \<Rightarrow> False | _ \<Rightarrow> True)
   \<Longrightarrow> fst (Bucket_CreateBucketIfNotExists t b name) = Inr (b @ [name])"
  by (auto simp: Bucket_CreateBucketIfNotExists_def split: option.splits entry.splits)

lemma Put_loop_invalid:
  "writable t \<Longrightarrow> no_value_on t b (before_empty names) \<Longrightarrow> [] \<in> set names \<Longrightarrow>
   fst (Put_loop t b names) = Inl ErrInvalidLocationBucket"
proof (induction names arbitrary: t b)
  case Nil
  then show ?case by simp
next
  case (Cons name names)
  show ?case
  proof (cases "name = []")
    case True
    then show ?thesis by simp
  next
    case ne: False
    obtain r t1 where c: "Bucket_CreateBucketIfNotExists t b name = (r, t1)" by fastforce
    from Cons.prems(2) ne have here: "case entries t (b @ [name]) of Some (KeyValue _) \<Rightarrow> False | _ \<Rightarrow> True"
      and below: "no_value_on t (b @ [name]) (before_empty names)"
      by (simp_all add: before_empty_def)
    from Create_succeeds[OF Cons.prems(1) ne here] c have r: "r = Inr (b @ [name])" by simp
    from Create_writable[of t b name] c Cons.prems(1) have w1: "writable t1" by simp
    have "no_value_on t1 (b @ [name]) (before_empty names) = no_value_on t (b @ [name]) (before_empty names)"
      by (rule no_value_on_cong) (use Create_deeper[of b _ t name] c in simp)
    with below have nv1: "no_value_on t1 (b @ [name]) (before_empty names)" by simp
    from Cons.prems(3) ne have "[] \<in> set names" by auto
    from Cons.IH[OF w1 nv1 this] c r ne show ?thesis by simp
  qed
qed

lemma GetBucket_tx: "snd (GetBucket t location) = t"
proof (cases "location = []")
  case True
  then show ?thesis by (simp add: GetBucket_def)
next
  case False
  then show ?thesis by (simp add: GetBucket_eq_loop GetBucket_loop_tx)
qed

lemma Get_tx: "snd (Get t location key) = t"
proof -
  obtain r t1 where g: "GetBucket t location = (r, t1)" by fastforce
  with GetBucket_tx[of t location] have "t1 = t" by simp
  with g show ?thesis
    by (auto simp: Get_def Bucket_Get_def split: sum.splits option.splits entry.splits)
qed

lemma Get_found:
  assumes "location \<noteq> []" and "[] \<notin> set (segments location)" and "chain_exists t location"
  shows "Get t location key =
           (if key = [] then Inl ErrKeyNotProvided
            else Inr (case entries t (segments location @ [key]) of
                        Some (KeyValue v) \<Rightarrow> v | _ \<Rightarrow> None), t)"
  using assms
  by (auto simp: Get_def GetBucket_eq_loop GetBucket_loop_found chain_exists_def Bucket_Get_def
           split: option.splits entry.splits)

lemma Get_missing:
  assumes "location \<noteq> []" and "\<not> chain_from t [] (before_empty (segments location))"
  shows "Get t location key = (Inr None, t)"
  using assms by (simp add: Get_def GetBucket_eq_loop GetBucket_loop_missing)

lemma Put_no_panic: "fst (Put t location key val) \<noteq> Some PanicIndexOutOfRange"
proof (cases "location = [] \<or> key = []")
  case True
  then show ?thesis by (auto simp: Put_def)
next
  case False
  then have eq: "Put t location key val =
     (case Put_loop t [] (segments location) of
        (Inl err, t2) \<Rightarrow> (Some err, t2)
      | (Inr b', t2) \<Rightarrow> Bucket_Put t2 b' key val)"
    by (simp add: Put_eq_loop)
  obtain r t2 where l: "Put_loop t [] (segments location) = (r, t2)" by fastforce
  show ?thesis
  proof (cases r)
    case (Inl e)
    with l Put_loop_Inl[of t "[]" "segments location" e t2] eq show ?thesis by auto
  next
    case (Inr b')
    obtain r3 t3 where bp: "Bucket_Put t2 b' key val = (r3, t3)" by fastforce
    with Bucket_Put_Some[of t2 b' key val _ t3] l Inr eq show ?thesis by (cases r3) auto
  qed
qed

lemma GetBucket_loop_no_panic: "fst (GetBucket_loop t b names) \<noteq> Inl PanicIndexOutOfRange"
  by (induction names arbitrary: b) (auto simp: Bucket_Bucket_def split: option.splits entry.splits)

lemma GetBucket_no_panic: "fst (GetBucket t location) \<noteq> Inl PanicIndexOutOfRange"
proof (cases "location = []")
  case True
  then show ?thesis by (simp add: GetBucket_def)
next
  case False
  then show ?thesis by (simp add: GetBucket_eq_loop GetBucket_loop_no_panic)
qed

lemma Create_other:
  "p \<noteq> b @ [name] \<Longrightarrow> entries (snd (Bucket_CreateBucketIfNotExists t b name)) p = entries t p"
  by (auto simp: Bucket_CreateBucketIfNotExists_def split: option.splits entry.splits)

lemma Put_loop_frame:
  "length p > length b + length names \<Longrightarrow> entries (snd (Put_loop t b names)) p = entries t p"
proof (induction names arbitrary: t b)
  case Nil
  then show ?case by simp
next
  case (Cons name names)
  obtain r t1 where c: "Bucket_CreateBucketIfNotExists t b name = (r, t1)" by fastforce
  from Cons.prems have "p \<noteq> b @ [name]" by auto
  from Create_other[OF this, of t] c have t1: "entries t1 p = entries t p" by simp
  show ?case
  proof (cases r)
    case (Inl e)
    with c t1 show ?thesis by simp
  next
    case (Inr b1)
    with c Create_Inr have "b1 = b @ [name]" by blast
    with Cons.prems have "length p > length b1 + length names" by simp
    from Cons.IH[OF this, of t1] c Inr t1 show ?thesis by simp
  qed
qed

lemma Put_loop_succeeds:
  "writable t \<Longrightarrow> no_value_on t b names \<Longrightarrow> [] \<notin> set names \<Longrightarrow>
   fst (Put_loop t b names) = Inr (b @ names) \<and> writable (snd (Put_loop t b names))"
proof (induction names arbitrary: t b)
  case Nil
  then show ?case by simp
next
  case (Cons name names)
  from Cons.prems(3) have ne: "name \<noteq> []" and rest: "[] \<notin> set names" by auto
  obtain r t1 where c: "Bucket_CreateBucketIfNotExists t b name = (r, t1)" by fastforce
  from Cons.prems(2) have here: "case entries t (b @ [name]) of Some (KeyValue _) \<Rightarrow> False | _ \<Rightarrow> True"
    and below: "no_value_on t (b @ [name]) names" by simp_all
  from Create_succeeds[OF Cons.prems(1) ne here] c have r: "r = Inr (b @ [name])" by simp
  from Create_writable[of t b name] c Cons.prems(1) have w1: "writable t1" by simp
  have "no_value_on t1 (b @ [name]) names = no_value_on t (b @ [name]) names"
    by (rule no_value_on_cong) (use Create_deeper[of b _ t name] c in simp)
  with below have nv1: "no_value_on t1 (b @ [name]) names" by simp
  from Cons.IH[OF w1 nv1 rest] c r ne show ?case by simp
qed

lemma Bucket_Put_succeeds:
  "writable t \<Longrightarrow> key \<noteq> [] \<Longrightarrow> length key \<le> MaxKeySize \<Longrightarrow> len val \<le> MaxValueSize \<Longrightarrow>
   entries t (b @ [key]) \<noteq> Some SubBucket \<Longrightarrow> fst (Bucket_Put t b key val) = None"
  by (auto simp: Bucket_Put_def split: option.splits entry.splits)

lemma Put_succeeds:
  assumes "location \<noteq> []" and "[] \<notin> set (segments location)" and "key \<noteq> []"
    and "writable t" and "no_value_on t [] (segments location)"
    and "length key \<le> MaxKeySize" and "len val \<le> MaxValueSize"
    and "entries t (segments location @ [key]) \<noteq> Some SubBucket"
  shows "fst (Put t location key val) = None"
proof -
  obtain r t2 where l: "Put_loop t [] (segments location) = (r, t2)" by fastforce
  with Put_loop_succeeds[OF assms(4,5,2)]
  have r: "r = Inr (segments location)" and w2: "writable t2" by simp_all
  from Put_loop_frame[of "[]" "segments location" "segments location @ [key]" t] l
  have "entries t2 (segments location @ [key]) = entries t (segments location @ [key])" by simp
  with assms(8) have "entries t2 (segments location @ [key]) \<noteq> Some SubBucket" by simp
  from Bucket_Put_succeeds[OF w2 assms(3,6,7) this] l r show ?thesis
    by (simp add: Put_eq_loop[OF assms(1,3)])
qed

lemma Put_loop_unchanged:
  "chain_from t b (before_empty names) \<Longrightarrow> snd (Put_loop t b names) = t"
proof (induction names arbitrary: b)
  case Nil
  then show ?case by simp
next
  case (Cons name names)
  show ?case
  proof (cases "name = []")
    case True
    then show ?thesis by simp
  next
    case ne: False
    with Cons.prems have here: "entries t (b @ [name]) = Some SubBucket"
      and below: "chain_from t (b @ [name]) (before_empty names)"
      by (simp_all add: before_empty_def)
    show ?thesis
    proof (cases "writable t")
      case True
      with ne here have "Bucket_CreateBucketIfNotExists t b name = (Inr (b @ [name]), t)"
        by (simp add: Bucket_CreateBucketIfNotExists_def)
      with ne Cons.IH[OF below] show ?thesis by simp
    next
      case False
      then have "Bucket_CreateBucketIfNotExists t b name = (Inl ErrTxNotWritable, t)"
        by (simp add: Bucket_CreateBucketIfNotExists_def)
      with ne show ?thesis by simp
    qed
  qed
qed

section \<open>Properties of the operations\<close>

subsection \<open>Put followed by Get\<close>

text \<open>
  C1. For every transaction, every non-empty location without an empty segment, every
  non-empty key and every slice: \<^verbatim>\<open>Put\<close> returns no error, or an error of the store;
  when it returns no error, \<^verbatim>\<open>Get\<close> with the same location and key on the resulting
  transaction returns the slice that was written, and no error. The store has no reason to
  fail, and \<^verbatim>\<open>Put\<close> returns no error, when the transaction is writable, no segment names
  a plain value, the key and the value are within the store's size limits and the key does
  not name a nested bucket.
\<close>

theorem Put_then_Get:
  assumes "location \<noteq> []" and "[] \<notin> set (segments location)" and "key \<noteq> []"
  shows "(case Put t location key val of
            (None, t') \<Rightarrow> Get t' location key = (Inr val, t')
          | (Some err, t') \<Rightarrow> storage_failure err)
       \<and> (writable t \<and> no_value_on t [] (segments location)
            \<and> length key \<le> MaxKeySize \<and> len val \<le> MaxValueSize
            \<and> entries t (segments location @ [key]) \<noteq> Some SubBucket \<longrightarrow>
          fst (Put t location key val) = None)"
proof -
  have round_trip: "case Put t location key val of
            (None, t') \<Rightarrow> Get t' location key = (Inr val, t')
          | (Some err, t') \<Rightarrow> storage_failure err"
  proof (cases "Put_loop t [] (segments location)")
    case (Pair r t2)
    show ?thesis
    proof (cases r)
      case (Inl e)
      with Pair Put_loop_Inl[of t "[]" "segments location" e t2] assms(2)
      have "storage_failure e" by auto
      with Pair Inl show ?thesis by (simp add: Put_eq_loop[OF assms(1,3)])
    next
      case (Inr b')
      with Pair Put_loop_Inr[of t "[]" "segments location" b' t2]
      have b': "b' = segments location" and chain: "chain_from t2 [] (segments location)" by auto
      have put: "Put t location key val = Bucket_Put t2 b' key val"
        using Pair Inr by (simp add: Put_eq_loop[OF assms(1,3)])
      obtain r3 t3 where bp: "Bucket_Put t2 b' key val = (r3, t3)" by fastforce
      show ?thesis
      proof (cases r3)
        case (Some e)
        with bp Bucket_Put_Some[of t2 b' key val e t3] put show ?thesis by simp
      next
        case None
        with bp Bucket_Put_None[of t2 b' key val t3]
        have t3: "t3 = t2\<lparr>entries := (entries t2)(b' @ [key] \<mapsto> KeyValue val)\<rparr>"
          and free: "entries t2 (b' @ [key]) \<noteq> Some SubBucket" by auto
        have "chain_from t3 [] (segments location)"
          using chain by (rule chain_from_mono) (use t3 free in auto)
        with assms(2) have "GetBucket_loop t3 [] (segments location) = (Inr (Some b'), t3)"
          by (simp add: GetBucket_loop_found b')
        then have "Get t3 location key = (Inr val, t3)"
          using assms(1,3) t3 by (simp add: Get_def GetBucket_eq_loop Bucket_Get_def)
        with put bp None show ?thesis by simp
      qed
    qed
  qed
  with Put_succeeds[OF assms] show ?thesis by blast
qed

theorem Put_then_Get_witness:
  "''users.chilts'' \<noteq> [] \<and> [] \<notin> set (segments ''users.chilts'') \<and> ''email'' \<noteq> []
   \<and> writable empty_tx \<and> no_value_on empty_tx [] (segments ''users.chilts'')
   \<and> length ''email'' \<le> MaxKeySize \<and> len (Some ''a@example.com'') \<le> MaxValueSize
   \<and> entries empty_tx (segments ''users.chilts'' @ [''email'']) \<noteq> Some SubBucket
   \<and> fst (Put empty_tx ''users.chilts'' ''email'' (Some ''a@example.com'')) = None
   \<and> Get (snd (Put empty_tx ''users.chilts'' ''email'' (Some ''a@example.com'')))
         ''users.chilts'' ''email''
       = (Inr (Some ''a@example.com''),
          snd (Put empty_tx ''users.chilts'' ''email'' (Some ''a@example.com'')))"
proof -
  have loc: "''users.chilts'' \<noteq> []" and key: "''email'' \<noteq> []" by simp_all
  have segs: "[] \<notin> set (segments ''users.chilts'')" by (simp add: segments_def)
  have pre: "writable empty_tx" "no_value_on empty_tx [] (segments ''users.chilts'')"
      "length ''email'' \<le> MaxKeySize" "len (Some ''a@example.com'') \<le> MaxValueSize"
      "entries empty_tx (segments ''users.chilts'' @ [''email'']) \<noteq> Some SubBucket"
    by (simp_all add: empty_tx_def segments_def MaxKeySize_def MaxValueSize_def len_def)
  note th = Put_then_Get[OF loc segs key, where t = empty_tx and val = "Some ''a@example.com''"]
  from th pre have ok: "fst (Put empty_tx ''users.chilts'' ''email'' (Some ''a@example.com'')) = None"
    by blast
  with th
  have "Get (snd (Put empty_tx ''users.chilts'' ''email'' (Some ''a@example.com'')))
         ''users.chilts'' ''email''
       = (Inr (Some ''a@example.com''),
          snd (Put empty_tx ''users.chilts'' ''email'' (Some ''a@example.com'')))"
    by (cases "Put empty_tx ''users.chilts'' ''email'' (Some ''a@example.com'')") auto
  with loc key segs pre ok show ?thesis by blast
qed

subsection \<open>Get on a missing container\<close>

text \<open>
  C2. For every transaction, every location (non-empty and without an empty segment, as
  the data model has it) whose chain of containers does not fully exist, and every key,
  \<^verbatim>\<open>Get\<close> returns \<^verbatim>\<open>(nil, nil)\<close>, the soft miss and not an error, and leaves the
  transaction as it was.
\<close>

theorem Get_soft_miss:
  assumes "location \<noteq> []" and "[] \<notin> set (segments location)"
    and "\<not> chain_exists t location"
  shows "Get t location key = (Inr None, t)"
proof -
  from assms(2) have "before_empty (segments location) = segments location"
    by (auto simp: before_empty_def)
  with assms(3) have "\<not> chain_from t [] (before_empty (segments location))"
    by (simp add: chain_exists_def)
  with assms(1) show ?thesis by (rule Get_missing)
qed

theorem Get_soft_miss_witness:
  "''a.b'' \<noteq> [] \<and> [] \<notin> set (segments ''a.b'') \<and> \<not> chain_exists a_tx ''a.b''
   \<and> Get a_tx ''a.b'' ''email'' = (Inr None, a_tx)
   \<and> ''users.chilts'' \<noteq> [] \<and> [] \<notin> set (segments ''users.chilts'')
   \<and> \<not> chain_exists empty_tx ''users.chilts''
   \<and> Get empty_tx ''users.chilts'' [] = (Inr None, empty_tx)"
proof -
  have loc: "''a.b'' \<noteq> []" "''users.chilts'' \<noteq> []" by simp_all
  have segs: "[] \<notin> set (segments ''a.b'')" "[] \<notin> set (segments ''users.chilts'')"
    by (simp_all add: segments_def)
  have miss: "\<not> chain_exists a_tx ''a.b''" "\<not> chain_exists empty_tx ''users.chilts''"
    by (simp_all add: chain_exists_def segments_def a_tx_def empty_tx_def)
  from Get_soft_miss[OF loc(1) segs(1) miss(1), of "''email''"]
    Get_soft_miss[OF loc(2) segs(2) miss(2), of "[]"] loc segs miss
  show ?thesis by simp
qed

subsection \<open>A location with an empty segment\<close>

text \<open>
  C3, as amended. For every transaction and every non-empty location with an empty
  segment: \<^verbatim>\<open>GetBucket\<close> and \<^verbatim>\<open>Get\<close> (with any key) return
  \<^verbatim>\<open>ErrInvalidLocationBucket\<close> when every container named before the first empty segment
  exists, and \<^verbatim>\<open>(nil, nil)\<close> otherwise; \<^verbatim>\<open>Put\<close> with a non-empty key fails, with
  \<^verbatim>\<open>ErrInvalidLocationBucket\<close> or with an error of the store, and with
  \<^verbatim>\<open>ErrInvalidLocationBucket\<close> whenever the transaction is writable and no segment before
  the first empty one names a plain value.
\<close>

theorem empty_segment_errors:
  assumes "location \<noteq> []" and "[] \<in> set (segments location)"
  shows "GetBucket t location =
           (if chain_from t [] (before_empty (segments location))
            then Inl ErrInvalidLocationBucket else Inr None, t)
       \<and> Get t location key =
           (if chain_from t [] (before_empty (segments location))
            then Inl ErrInvalidLocationBucket else Inr None, t)
       \<and> (key \<noteq> [] \<longrightarrow>
            (\<exists>err. fst (Put t location key val) = Some err
                   \<and> (err = ErrInvalidLocationBucket \<or> storage_failure err)))
       \<and> (key \<noteq> [] \<and> writable t \<and> no_value_on t [] (before_empty (segments location)) \<longrightarrow>
            fst (Put t location key val) = Some ErrInvalidLocationBucket)"
proof -
  have gb: "GetBucket t location =
           (if chain_from t [] (before_empty (segments location))
            then Inl ErrInvalidLocationBucket else Inr None, t)"
    using assms by (simp add: GetBucket_eq_loop GetBucket_loop_missing GetBucket_loop_invalid)
  then have g: "Get t location key =
           (if chain_from t [] (before_empty (segments location))
            then Inl ErrInvalidLocationBucket else Inr None, t)"
    by (simp add: Get_def)
  have p1: "\<exists>err. fst (Put t location key val) = Some err
                   \<and> (err = ErrInvalidLocationBucket \<or> storage_failure err)" if key: "key \<noteq> []"
  proof (cases "Put_loop t [] (segments location)")
    case (Pair r t2)
    show ?thesis
    proof (cases r)
      case (Inl e)
      with Pair Put_loop_Inl[of t "[]" "segments location" e t2]
      have "e = ErrInvalidLocationBucket \<or> storage_failure e" by auto
      with Pair Inl show ?thesis by (simp add: Put_eq_loop[OF assms(1) key])
    next
      case (Inr b')
      with Pair Put_loop_Inr[of t "[]" "segments location" b' t2] assms(2)
      show ?thesis by simp
    qed
  qed
  have p2: "fst (Put t location key val) = Some ErrInvalidLocationBucket"
    if key: "key \<noteq> []" and w: "writable t"
      and nv: "no_value_on t [] (before_empty (segments location))"
    using Put_loop_invalid[OF w nv assms(2)]
    by (cases "Put_loop t [] (segments location)") (simp add: Put_eq_loop[OF assms(1) key])
  from gb g p1 p2 show ?thesis by blast
qed

theorem empty_segment_errors_witness:
  "''a..b'' \<noteq> [] \<and> [] \<in> set (segments ''a..b'')
   \<and> GetBucket a_tx ''a..b'' = (Inl ErrInvalidLocationBucket, a_tx)
   \<and> Get a_tx ''a..b'' ''k'' = (Inl ErrInvalidLocationBucket, a_tx)
   \<and> fst (Put a_tx ''a..b'' ''k'' (Some ''v'')) = Some ErrInvalidLocationBucket"
proof -
  have loc: "''a..b'' \<noteq> []" by simp
  have segs: "[] \<in> set (segments ''a..b'')" by (simp add: segments_def)
  have chain: "chain_from a_tx [] (before_empty (segments ''a..b''))"
    by (simp add: segments_def before_empty_def a_tx_def)
  have key: "''k'' \<noteq> []" by simp
  have w: "writable a_tx" by (simp add: a_tx_def)
  have nv: "no_value_on a_tx [] (before_empty (segments ''a..b''))"
    by (simp add: segments_def before_empty_def a_tx_def)
  from empty_segment_errors[OF loc segs, of a_tx "''k''" "Some ''v''"] loc segs chain key w nv
  show ?thesis by simp
qed

text \<open>
  C3 as stated fails: on the empty store the read path returns the soft miss for
  \<^verbatim>\<open>a..b\<close>, since the bucket \<^verbatim>\<open>a\<close> is missed before the empty segment is looked at, and
  \<^verbatim>\<open>Put\<close> with an empty key returns \<^verbatim>\<open>ErrKeyNotProvided\<close>.
\<close>

theorem empty_segment_errors_counterexample:
  "[] \<in> set (segments ''a..b'')
   \<and> GetBucket empty_tx ''a..b'' = (Inr None, empty_tx)
   \<and> Get empty_tx ''a..b'' ''k'' = (Inr None, empty_tx)
   \<and> Put empty_tx ''a..b'' [] (Some ''v'') = (Some ErrKeyNotProvided, empty_tx)"
  by (simp add: segments_def empty_tx_def Get_def GetBucket_def Put_def
      Tx_Bucket_def Bucket_Bucket_def)

subsection \<open>Get with an empty key\<close>

text \<open>
  C4, as amended. For every transaction and every non-empty location without an empty
  segment whose chain of containers exists, \<^verbatim>\<open>Get\<close> with an empty key returns
  \<^verbatim>\<open>ErrKeyNotProvided\<close>.
\<close>

theorem Get_empty_key:
  assumes "location \<noteq> []" and "[] \<notin> set (segments location)" and "chain_exists t location"
  shows "Get t location [] = (Inl ErrKeyNotProvided, t)"
  using Get_found[OF assms, of "[]"] by simp

theorem Get_empty_key_witness:
  "''a'' \<noteq> [] \<and> [] \<notin> set (segments ''a'') \<and> chain_exists a_tx ''a''
   \<and> Get a_tx ''a'' [] = (Inl ErrKeyNotProvided, a_tx)"
proof -
  have loc: "''a'' \<noteq> []" by simp
  have segs: "[] \<notin> set (segments ''a'')" by (simp add: segments_def)
  have chain: "chain_exists a_tx ''a''" by (simp add: chain_exists_def segments_def a_tx_def)
  from Get_empty_key[OF loc segs chain] loc segs chain show ?thesis by simp
qed

text \<open>
  C4 as stated, for every location, fails: the key is looked at after the bucket is
  resolved, so with an empty key \<^verbatim>\<open>Get\<close> returns the soft miss for a missing bucket,
  \<^verbatim>\<open>ErrLocationMustHaveAtLeastOneBucket\<close> for the empty location and
  \<^verbatim>\<open>ErrInvalidLocationBucket\<close> for an empty segment.
\<close>

theorem Get_empty_key_counterexample:
  "Get empty_tx ''a'' [] = (Inr None, empty_tx)
   \<and> Get a_tx [] [] = (Inl ErrLocationMustHaveAtLeastOneBucket, a_tx)
   \<and> Get a_tx ''a..b'' [] = (Inl ErrInvalidLocationBucket, a_tx)"
  by (simp add: a_tx_def empty_tx_def Get_def GetBucket_def Tx_Bucket_def Bucket_Bucket_def)

subsection \<open>The read path leaves the store alone\<close>

text \<open>
  C5. For every transaction and all arguments, the transaction after \<^verbatim>\<open>GetBucket\<close>,
  \<^verbatim>\<open>Get\<close> and \<^verbatim>\<open>GetJson\<close> is the transaction before it: no container is created and
  no entry is changed.
\<close>

theorem reads_keep_store:
  "snd (GetBucket t location) = t
   \<and> snd (Get t location key) = t
   \<and> snd (GetJson unmarshal t location key out) = t"
proof -
  obtain r t1 where g: "Get t location key = (r, t1)" by fastforce
  with Get_tx[of t location key] have "t1 = t" by simp
  with g have "snd (GetJson unmarshal t location key out) = t"
    by (auto simp: GetJson_def split: sum.splits option.splits)
  with GetBucket_tx Get_tx show ?thesis by simp
qed

theorem reads_keep_store_witness:
  "snd (GetBucket a_tx ''a.b'') = a_tx
   \<and> snd (Get a_tx ''a'' ''k'') = a_tx
   \<and> snd (GetJson sample_unmarshal a_tx ''a'' ''k'' False) = a_tx"
  using reads_keep_store[of a_tx "''a.b''" "''k''" sample_unmarshal False]
    reads_keep_store[of a_tx "''a''" "''k''" sample_unmarshal False]
  by blast

subsection \<open>PutJson\<close>

text \<open>
  C6. When the encoder fails on the value, \<^verbatim>\<open>PutJson\<close> returns the encoder's error and
  the transaction as it was; when the encoder returns the slice \<open>val\<close>, \<^verbatim>\<open>PutJson\<close> is
  \<^verbatim>\<open>Put\<close> of \<open>val\<close>, in its error and in the resulting transaction.
\<close>

theorem PutJson_marshal:
  "(marshal v = Inl err \<longrightarrow> PutJson marshal t location key v = (Some err, t))
   \<and> (marshal v = Inr val \<longrightarrow> PutJson marshal t location key v = Put t location key val)"
  by (simp add: PutJson_def)

theorem PutJson_marshal_witness:
  "sample_marshal JChan = Inl (ErrJson ''json: unsupported type: chan int'')
   \<and> PutJson sample_marshal empty_tx ''animal'' ''dog'' JChan
       = (Some (ErrJson ''json: unsupported type: chan int''), empty_tx)
   \<and> sample_marshal (JBool True) = Inr (Some ''true'')
   \<and> PutJson sample_marshal empty_tx ''animal'' ''dog'' (JBool True)
       = Put empty_tx ''animal'' ''dog'' (Some ''true'')"
proof -
  have bad: "sample_marshal JChan = Inl (ErrJson ''json: unsupported type: chan int'')" by simp
  have good: "sample_marshal (JBool True) = Inr (Some ''true'')" by simp
  from PutJson_marshal[of sample_marshal JChan "ErrJson ''json: unsupported type: chan int''"
      empty_tx "''animal''" "''dog''"] bad
  have 1: "PutJson sample_marshal empty_tx ''animal'' ''dog'' JChan
       = (Some (ErrJson ''json: unsupported type: chan int''), empty_tx)" by blast
  from PutJson_marshal[of sample_marshal "JBool True" _ empty_tx "''animal''" "''dog''" "Some ''true''"] good
  have 2: "PutJson sample_marshal empty_tx ''animal'' ''dog'' (JBool True)
       = Put empty_tx ''animal'' ''dog'' (Some ''true'')" by blast
  from bad good 1 2 show ?thesis by blast
qed

subsection \<open>GetJson\<close>

text \<open>
  C7. When \<^verbatim>\<open>Get\<close> returns an error, \<^verbatim>\<open>GetJson\<close> returns it and leaves the output
  target as it was; when \<^verbatim>\<open>Get\<close> returns \<^verbatim>\<open>(nil, nil)\<close>, \<^verbatim>\<open>GetJson\<close> returns no
  error and leaves the output target as it was; when \<^verbatim>\<open>Get\<close> returns bytes,
  \<^verbatim>\<open>GetJson\<close> returns what the decoder makes of them and of the target, its error
  included. The soft miss covers a missing container of the chain and a key that is absent
  from an existing container.
\<close>

theorem GetJson_cases:
  "(Get t location key = (Inl err, t') \<longrightarrow>
      GetJson unmarshal t location key out = ((Some err, out), t'))
   \<and> (Get t location key = (Inr None, t') \<longrightarrow>
      GetJson unmarshal t location key out = ((None, out), t'))
   \<and> (Get t location key = (Inr (Some raw), t') \<longrightarrow>
      GetJson unmarshal t location key out = (unmarshal raw out, t'))
   \<and> (location \<noteq> [] \<and> \<not> chain_from t [] (before_empty (segments location)) \<longrightarrow>
      GetJson unmarshal t location key out = ((None, out), t))
   \<and> (location \<noteq> [] \<and> [] \<notin> set (segments location) \<and> chain_exists t location \<and> key \<noteq> []
        \<and> entries t (segments location @ [key]) = None \<longrightarrow>
      GetJson unmarshal t location key out = ((None, out), t))"
proof -
  have absent_chain: "GetJson unmarshal t location key out = ((None, out), t)"
    if "location \<noteq> []" and "\<not> chain_from t [] (before_empty (segments location))"
    using Get_missing[OF that, of key] by (simp add: GetJson_def)
  have absent_key: "GetJson unmarshal t location key out = ((None, out), t)"
    if "location \<noteq> []" and "[] \<notin> set (segments location)" and "chain_exists t location"
      and "key \<noteq> []" and "entries t (segments location @ [key]) = None"
    using Get_found[OF that(1-3), of key] that(4,5) by (simp add: GetJson_def)
  from absent_chain absent_key show ?thesis by (simp add: GetJson_def)
qed

theorem GetJson_cases_witness:
  "Get dog_tx [] ''dog'' = (Inl ErrLocationMustHaveAtLeastOneBucket, dog_tx)
   \<and> GetJson sample_unmarshal dog_tx [] ''dog'' False = ((Some ErrLocationMustHaveAtLeastOneBucket, False), dog_tx)
   \<and> Get dog_tx ''animal'' ''dog'' = (Inr (Some ''true''), dog_tx)
   \<and> GetJson sample_unmarshal dog_tx ''animal'' ''dog'' False = ((None, True), dog_tx)
   \<and> Get dog_tx ''animal'' ''cat'' = (Inr None, dog_tx)
   \<and> GetJson sample_unmarshal dog_tx ''animal'' ''cat'' False = ((None, False), dog_tx)
   \<and> \<not> chain_from dog_tx [] (before_empty (segments ''car''))
   \<and> GetJson sample_unmarshal dog_tx ''car'' ''golf'' False = ((None, False), dog_tx)"
proof -
  have e: "Get dog_tx [] ''dog'' = (Inl ErrLocationMustHaveAtLeastOneBucket, dog_tx)"
    by (simp add: Get_def GetBucket_def)
  have d: "Get dog_tx ''animal'' ''dog'' = (Inr (Some ''true''), dog_tx)"
    by (simp add: Get_def GetBucket_def Tx_Bucket_def Bucket_Bucket_def Bucket_Get_def dog_tx_def)
  have c: "Get dog_tx ''animal'' ''cat'' = (Inr None, dog_tx)"
    by (simp add: Get_def GetBucket_def Tx_Bucket_def Bucket_Bucket_def Bucket_Get_def dog_tx_def)
  have car: "\<not> chain_from dog_tx [] (before_empty (segments ''car''))"
    by (simp add: segments_def before_empty_def dog_tx_def)
  have seg: "[] \<notin> set (segments ''animal'')" "chain_exists dog_tx ''animal''"
      "entries dog_tx (segments ''animal'' @ [''cat'']) = None"
    by (simp_all add: segments_def chain_exists_def dog_tx_def)
  note th = GetJson_cases[where unmarshal = sample_unmarshal and t = dog_tx and out = False]
  from th[where location = "[]" and key = "''dog''" and err = ErrLocationMustHaveAtLeastOneBucket
      and t' = dog_tx] e
  have 1: "GetJson sample_unmarshal dog_tx [] ''dog'' False = ((Some ErrLocationMustHaveAtLeastOneBucket, False), dog_tx)"
    by blast
  from th[where location = "''animal''" and key = "''dog''" and t' = dog_tx and raw = "''true''"] d
  have 2: "GetJson sample_unmarshal dog_tx ''animal'' ''dog'' False = ((None, True), dog_tx)"
    by (simp add: sample_unmarshal_def)
  from th[where location = "''animal''" and key = "''cat''" and t' = dog_tx] c seg
  have 3: "GetJson sample_unmarshal dog_tx ''animal'' ''cat'' False = ((None, False), dog_tx)"
    by simp
  from th[where location = "''car''" and key = "''golf''"] car
  have 4: "GetJson sample_unmarshal dog_tx ''car'' ''golf'' False = ((None, False), dog_tx)"
    by simp
  from e d c car 1 2 3 4 show ?thesis by blast
qed

subsection \<open>Put with an empty location or key\<close>

text \<open>
  C8. For every transaction, key and slice, \<^verbatim>\<open>Put\<close> with an empty location returns
  \<^verbatim>\<open>ErrLocationMustHaveAtLeastOneBucket\<close>; for every non-empty location, \<^verbatim>\<open>Put\<close>
  with an empty key returns \<^verbatim>\<open>ErrKeyNotProvided\<close>. The transaction is as it was.
\<close>

theorem Put_empty_arguments:
  "Put t [] key val = (Some ErrLocationMustHaveAtLeastOneBucket, t)
   \<and> (location \<noteq> [] \<longrightarrow> Put t location [] val = (Some ErrKeyNotProvided, t))"
  by (simp add: Put_def)

theorem Put_empty_arguments_witness:
  "''users.chilts'' \<noteq> []
   \<and> Put empty_tx ''users.chilts'' [] (Some ''v'') = (Some ErrKeyNotProvided, empty_tx)
   \<and> Put empty_tx [] ''k'' (Some ''v'') = (Some ErrLocationMustHaveAtLeastOneBucket, empty_tx)"
proof -
  have loc: "''users.chilts'' \<noteq> []" by simp
  from Put_empty_arguments[where t = empty_tx and key = "''k''" and val = "Some ''v''"
      and location = "''users.chilts''"] loc
  show ?thesis by blast
qed

subsection \<open>Put stops at an empty segment after creating buckets\<close>

text \<open>
  C9, as amended. For a location whose first segment is non-empty and which has an empty
  segment later on, \<^verbatim>\<open>Put\<close> never succeeds: with an empty key it returns
  \<^verbatim>\<open>ErrKeyNotProvided\<close>, with a non-empty key \<^verbatim>\<open>ErrInvalidLocationBucket\<close> or an error
  of the store, and \<^verbatim>\<open>ErrInvalidLocationBucket\<close> whenever the transaction is writable and
  no segment before the first empty one names a plain value. Whenever it returns
  \<^verbatim>\<open>ErrInvalidLocationBucket\<close>, the resulting transaction holds the bucket of every
  segment before the first empty one, and it differs from the transaction before the call
  exactly when one of these buckets did not exist yet: in that case the store is modified
  although an error is returned.
\<close>

theorem Put_invalid_segment_partial:
  assumes "segments location = b0 # rest" and "b0 \<noteq> []" and "[] \<in> set rest"
  shows "case Put t location key val of
           (err, t') \<Rightarrow>
             err \<noteq> None
             \<and> (key = [] \<longrightarrow> err = Some ErrKeyNotProvided)
             \<and> (key \<noteq> [] \<longrightarrow>
                  (case err of None \<Rightarrow> False
                   | Some e \<Rightarrow> e = ErrInvalidLocationBucket \<or> storage_failure e))
             \<and> (key \<noteq> [] \<and> writable t \<and> no_value_on t [] (before_empty (b0 # rest)) \<longrightarrow>
                  err = Some ErrInvalidLocationBucket)
             \<and> (err = Some ErrInvalidLocationBucket \<longrightarrow>
                  chain_from t' [] (before_empty (b0 # rest))
                  \<and> (t' \<noteq> t \<longleftrightarrow> \<not> chain_from t [] (before_empty (b0 # rest))))"
proof (cases "key = []")
  case True
  from assms(1,2) have "location \<noteq> []" by (auto simp: segments_def)
  with True show ?thesis by (simp add: Put_def)
next
  case key: False
  from assms(1,2) have loc: "location \<noteq> []" by (auto simp: segments_def)
  from assms have segs: "[] \<in> set (segments location)" by simp
  obtain r t2 where l: "Put_loop t [] (segments location) = (r, t2)" by fastforce
  show ?thesis
  proof (cases r)
    case (Inl e)
    with l have put: "Put t location key val = (Some e, t2)"
      by (simp add: Put_eq_loop[OF loc key])
    from l Inl Put_loop_Inl[of t "[]" "segments location" e t2]
    have e: "e = ErrInvalidLocationBucket \<and> chain_from t2 [] (before_empty (segments location))
             \<or> storage_failure e" by auto
    have definite: "e = ErrInvalidLocationBucket"
      if "writable t" and "no_value_on t [] (before_empty (b0 # rest))"
      using Put_loop_invalid[of t "[]" "segments location"] that segs l Inl assms(1) by simp
    have after: "chain_from t2 [] (before_empty (b0 # rest))" if "e = ErrInvalidLocationBucket"
      using e that assms(1) by auto
    have same: "t2 = t" if "chain_from t [] (before_empty (b0 # rest))"
      using Put_loop_unchanged[of t "[]" "segments location"] that l assms(1) by simp
    have changed: "t2 \<noteq> t"
      if "e = ErrInvalidLocationBucket" and "\<not> chain_from t [] (before_empty (b0 # rest))"
      using after[OF that(1)] that(2) by auto
    from e definite after same changed put key show ?thesis by auto
  next
    case (Inr b')
    with l Put_loop_Inr[of t "[]" "segments location" b' t2] segs show ?thesis by simp
  qed
qed

theorem Put_invalid_segment_partial_witness:
  "segments ''a..b'' = ''a'' # ['''', ''b''] \<and> ''a'' \<noteq> [] \<and> [] \<in> set ['''', ''b'']
   \<and> ''k'' \<noteq> [] \<and> writable empty_tx \<and> no_value_on empty_tx [] [''a'']
   \<and> fst (Put empty_tx ''a..b'' ''k'' (Some ''v'')) = Some ErrInvalidLocationBucket
   \<and> chain_from (snd (Put empty_tx ''a..b'' ''k'' (Some ''v''))) [] [''a'']
   \<and> \<not> chain_from empty_tx [] [''a'']
   \<and> snd (Put empty_tx ''a..b'' ''k'' (Some ''v'')) \<noteq> empty_tx
   \<and> fst (Put empty_tx ''a..b'' [] (Some ''v'')) = Some ErrKeyNotProvided"
proof -
  have s: "segments ''a..b'' = ''a'' # ['''', ''b'']" by (simp add: segments_def)
  have a: "''a'' \<noteq> []" and m: "[] \<in> set ['''', ''b'']" and k: "''k'' \<noteq> []" by simp_all
  have w: "writable empty_tx" by (simp add: empty_tx_def)
  have be: "before_empty (''a'' # ['''', ''b'']) = [''a'']" by (simp add: before_empty_def)
  have nv: "no_value_on empty_tx [] [''a'']" by (simp add: empty_tx_def)
  have nc: "\<not> chain_from empty_tx [] [''a'']" by (simp add: empty_tx_def)
  from Put_invalid_segment_partial[OF s a m, where t = empty_tx and key = "''k''"
      and val = "Some ''v''"] k w nv nc
  have 1: "fst (Put empty_tx ''a..b'' ''k'' (Some ''v'')) = Some ErrInvalidLocationBucket
   \<and> chain_from (snd (Put empty_tx ''a..b'' ''k'' (Some ''v''))) [] [''a'']
   \<and> snd (Put empty_tx ''a..b'' ''k'' (Some ''v'')) \<noteq> empty_tx"
    unfolding be by (cases "Put empty_tx ''a..b'' ''k'' (Some ''v'')") simp
  from Put_invalid_segment_partial[OF s a m, where t = empty_tx and key = "[]"
      and val = "Some ''v''"]
  have 2: "fst (Put empty_tx ''a..b'' [] (Some ''v'')) = Some ErrKeyNotProvided"
    by (cases "Put empty_tx ''a..b'' [] (Some ''v'')") simp
  from s a m k w nv nc 1 2 show ?thesis by blast
qed

text \<open>
  C9 as stated fails: with the bucket \<^verbatim>\<open>a\<close> already in the store, \<^verbatim>\<open>Put\<close> at \<^verbatim>\<open>a..b\<close>
  returns \<^verbatim>\<open>ErrInvalidLocationBucket\<close> and the store is as it was, nothing having been
  created; on a read-only transaction it returns the store's \<^verbatim>\<open>ErrTxNotWritable\<close>, and
  with an empty key \<^verbatim>\<open>ErrKeyNotProvided\<close>, in place of \<^verbatim>\<open>ErrInvalidLocationBucket\<close>.
\<close>

theorem Put_invalid_segment_partial_counterexample:
  "segments ''a..b'' = [''a'', '''', ''b'']
   \<and> Put a_tx ''a..b'' ''k'' (Some ''v'') = (Some ErrInvalidLocationBucket, a_tx)
   \<and> Put dog_tx ''a..b'' ''k'' (Some ''v'') = (Some ErrTxNotWritable, dog_tx)
   \<and> Put empty_tx ''a..b'' [] (Some ''v'') = (Some ErrKeyNotProvided, empty_tx)"
  by (simp add: segments_def Put_def Tx_CreateBucketIfNotExists_def
      Bucket_CreateBucketIfNotExists_def a_tx_def dog_tx_def empty_tx_def)

subsection \<open>The order of Put's checks\<close>

text \<open>
  C10. \<^verbatim>\<open>Put\<close> with an empty location and an empty key returns
  \<^verbatim>\<open>ErrLocationMustHaveAtLeastOneBucket\<close>; with a non-empty location and an empty key
  it returns \<^verbatim>\<open>ErrKeyNotProvided\<close>; with a non-empty location, a non-empty key and an
  empty first segment it returns \<^verbatim>\<open>ErrInvalidLocationBucket\<close>. In all three cases the
  transaction is as it was, for every transaction.
\<close>

theorem Put_validation_order:
  "Put t [] [] val = (Some ErrLocationMustHaveAtLeastOneBucket, t)
   \<and> (location \<noteq> [] \<longrightarrow> Put t location [] val = (Some ErrKeyNotProvided, t))
   \<and> (location \<noteq> [] \<and> key \<noteq> [] \<and> segments location = [] # rest \<longrightarrow>
        Put t location key val = (Some ErrInvalidLocationBucket, t))"
  by (simp add: Put_def segments_def)

theorem Put_validation_order_witness:
  "''a.b'' \<noteq> [] \<and> Put empty_tx ''a.b'' [] None = (Some ErrKeyNotProvided, empty_tx)
   \<and> ''.a'' \<noteq> [] \<and> ''k'' \<noteq> [] \<and> segments ''.a'' = [] # [''a'']
   \<and> Put empty_tx ''.a'' ''k'' None = (Some ErrInvalidLocationBucket, empty_tx)
   \<and> entries (snd (Put empty_tx ''a.b'' [] None)) [''a''] = None"
proof -
  have h: "''a.b'' \<noteq> []" "''.a'' \<noteq> []" "''k'' \<noteq> []" by simp_all
  have s: "segments ''.a'' = [] # [''a'']" by (simp add: segments_def)
  from Put_validation_order[where t = empty_tx and val = None and location = "''a.b''"] h
  have 1: "Put empty_tx ''a.b'' [] None = (Some ErrKeyNotProvided, empty_tx)" by blast
  from Put_validation_order[where t = empty_tx and val = None and location = "''.a''"
      and key = "''k''" and rest = "[''a'']"] h s
  have 2: "Put empty_tx ''.a'' ''k'' None = (Some ErrInvalidLocationBucket, empty_tx)" by blast
  from 1 have 3: "entries (snd (Put empty_tx ''a.b'' [] None)) [''a''] = None"
    by (simp add: empty_tx_def)
  from h s 1 2 3 show ?thesis by blast
qed

end
